theory Spec2Isabelle
  imports Main "HOL-Library.AList"
begin

section \<open>Python values\<close>

text \<open>
  The values that travel through \<^verbatim>\<open>app.py\<close>: what \<^verbatim>\<open>response.json()\<close> yields and what
  the request dictionaries hold. A dictionary is an association list in insertion order
  (\<open>map_of\<close> reads it, \<open>AList.update\<close> is \<^verbatim>\<open>d[k] = v\<close>: in place when the key is there,
  appended otherwise). Python's \<^verbatim>\<open>float\<close> is not part of the embedding.
\<close>

datatype pyval =
    VNone
  | VBool bool
  | VInt int
  | VStr string
  | VList "pyval list"
  | VDict "(string \<times> pyval) list"

type_synonym pydict = "(string \<times> pyval) list"

text \<open>
  The exception classes that occur. The last five come from the HTTP attempt:
  \<open>ReqConnectionError\<close>, \<open>ReqTimeout\<close> and \<open>ReqHTTPError\<close> are subclasses of
  \<^verbatim>\<open>requests.exceptions.RequestException\<close>; \<open>JSONDecodeError\<close> is the plain
  \<^verbatim>\<open>json.JSONDecodeError\<close>; \<open>RequestsJSONDecodeError\<close> is
  \<^verbatim>\<open>requests.exceptions.JSONDecodeError\<close>, the class that \<^verbatim>\<open>Response.json()\<close> raises since
  requests 2.27, which inherits from both \<^verbatim>\<open>RequestException\<close> (through
  \<^verbatim>\<open>InvalidJSONError\<close>) and \<^verbatim>\<open>json.JSONDecodeError\<close>.
\<close>

datatype pyexn =
    TypeError
  | AttributeError
  | ValueError
  | OverflowError
  | OSError
  | ReqConnectionError
  | ReqTimeout
  | ReqHTTPError
  | JSONDecodeError
  | RequestsJSONDecodeError

fun is_RequestException :: "pyexn \<Rightarrow> bool" where
  "is_RequestException ReqConnectionError = True"
| "is_RequestException ReqTimeout = True"
| "is_RequestException ReqHTTPError = True"
| "is_RequestException RequestsJSONDecodeError = True"
| "is_RequestException _ = False"

fun is_JSONDecodeError :: "pyexn \<Rightarrow> bool" where
  "is_JSONDecodeError JSONDecodeError = True"
| "is_JSONDecodeError RequestsJSONDecodeError = True"
| "is_JSONDecodeError _ = False"

text \<open>\<^verbatim>\<open>json.JSONDecodeError\<close> is a subclass of \<^verbatim>\<open>ValueError\<close>.\<close>

fun is_ValueError :: "pyexn \<Rightarrow> bool" where
  "is_ValueError ValueError = True"
| "is_ValueError JSONDecodeError = True"
| "is_ValueError RequestsJSONDecodeError = True"
| "is_ValueError _ = False"

fun is_TypeError :: "pyexn \<Rightarrow> bool" where
  "is_TypeError TypeError = True"
| "is_TypeError _ = False"

text \<open>Truth value of an object, as \<^verbatim>\<open>if x:\<close> and \<^verbatim>\<open>not x\<close> test it.\<close>

fun truthy :: "pyval \<Rightarrow> bool" where
  "truthy VNone = False"
| "truthy (VBool b) = b"
| "truthy (VInt n) = (n \<noteq> 0)"
| "truthy (VStr s) = (s \<noteq> [])"
| "truthy (VList xs) = (xs \<noteq> [])"
| "truthy (VDict d) = (d \<noteq> [])"

text \<open>The integer behind an \<^verbatim>\<open>int\<close> or a \<^verbatim>\<open>bool\<close> (a subclass of \<^verbatim>\<open>int\<close>).\<close>

fun as_int :: "pyval \<Rightarrow> int option" where
  "as_int (VInt n) = Some n"
| "as_int (VBool b) = Some (if b then 1 else 0)"
| "as_int _ = None"

text \<open>
  \<^verbatim>\<open>min(a, b)\<close> for an integer \<open>a\<close>: \<open>b\<close> when \<open>b < a\<close>, else \<open>a\<close>; comparing an integer
  with \<^verbatim>\<open>None\<close>, a string, a list or a dictionary raises \<^verbatim>\<open>TypeError\<close>.
\<close>

definition py_min :: "pyval \<Rightarrow> pyval \<Rightarrow> pyexn + pyval" where
  "py_min a b =
     (case as_int a of
        None \<Rightarrow> Inl TypeError
      | Some x \<Rightarrow>
          (case as_int b of
             None \<Rightarrow> Inl TypeError
           | Some y \<Rightarrow> Inr (if y < x then b else a)))"

text \<open>\<^verbatim>\<open>a + n\<close> for an integer \<open>n\<close>: an \<^verbatim>\<open>int\<close> when \<open>a\<close> is an integer, \<^verbatim>\<open>TypeError\<close> otherwise.\<close>

definition py_add_int :: "pyval \<Rightarrow> int \<Rightarrow> pyexn + pyval" where
  "py_add_int a n = (case as_int a of None \<Rightarrow> Inl TypeError | Some x \<Rightarrow> Inr (VInt (x + n)))"

text \<open>\<^verbatim>\<open>d.get(k, default)\<close>.\<close>

definition dict_get :: "pydict \<Rightarrow> string \<Rightarrow> pyval \<Rightarrow> pyval" where
  "dict_get d k dflt = (case map_of d k of None \<Rightarrow> dflt | Some v \<Rightarrow> v)"

text \<open>
  The items that \<^verbatim>\<open>list.extend(x)\<close> appends and \<^verbatim>\<open>len(x)\<close> counts: the elements of a list,
  the characters of a string, the keys of a dictionary; other objects are not iterable.
\<close>

fun py_iter :: "pyval \<Rightarrow> pyexn + pyval list" where
  "py_iter (VList xs) = Inr xs"
| "py_iter (VStr s) = Inr (map (\<lambda>c. VStr [c]) s)"
| "py_iter (VDict d) = Inr (map (\<lambda>kv. VStr (fst kv)) d)"
| "py_iter _ = Inl TypeError"

section \<open>Transport: \<^verbatim>\<open>make_api_request\<close>\<close>

text \<open>The three sidebar inputs that the helper functions read as globals.\<close>

record config =
  site_url :: string
  access_token :: string
  server_key :: string

datatype http_call = Post string pydict | Get string

text \<open>
  One pass through the \<^verbatim>\<open>try\<close> body (\<^verbatim>\<open>requests.post\<close> or \<^verbatim>\<open>requests.get\<close>,
  \<^verbatim>\<open>raise_for_status\<close>, \<^verbatim>\<open>response.json()\<close>) either returns the decoded payload or raises.
  The network is a function of a world state of any type \<open>'w\<close>.
\<close>

datatype outcome = Returned pyval | Raised pyexn

type_synonym 'w net = "'w \<Rightarrow> http_call \<Rightarrow> outcome \<times> 'w"

datatype ui_error = ApiFailed int | InvalidJson | PageFailed int

datatype event =
    Http http_call
  | Sleep nat
  | StError ui_error
  | Progress int pyval pyval

text \<open>
  The store: dictionaries live at addresses, \<open>nxt\<close> is the next free one; \<open>log\<close> records the
  HTTP attempts, the \<^verbatim>\<open>time.sleep\<close> calls, the \<^verbatim>\<open>st.error\<close> messages and the progress
  callbacks in the order they happen.
\<close>

record 'w state =
  heap :: "nat \<Rightarrow> pydict"
  nxt :: nat
  world :: 'w
  log :: "event list"

definition emit :: "event \<Rightarrow> 'w state \<Rightarrow> 'w state" where
  "emit e s = s\<lparr>log := log s @ [e]\<rparr>"

text \<open>A call of the optional progress callback.\<close>

definition report :: "bool \<Rightarrow> event \<Rightarrow> 'w state \<Rightarrow> 'w state" where
  "report progress e s = (if progress then emit e s else s)"

definition store :: "nat \<Rightarrow> string \<Rightarrow> pyval \<Rightarrow> 'w state \<Rightarrow> 'w state" where
  "store p k v s = s\<lparr>heap := (heap s)(p := AList.update k v (heap s p))\<rparr>"

definition rstrip_slash :: "string \<Rightarrow> string" where
  "rstrip_slash s = rev (dropWhile (\<lambda>c. c = CHR ''/'') (rev s))"

definition url_of :: "config \<Rightarrow> string \<Rightarrow> string" where
  "url_of cfg endpoint =
     rstrip_slash (site_url cfg) @ ''/api/'' @ endpoint @ ''?access_token='' @ access_token cfg"

text \<open>
  The part of the \<^verbatim>\<open>try\<close> body before the response is inspected: with a non-empty
  \<open>post_data\<close> the server key is written into that very dictionary and it is posted;
  with \<^verbatim>\<open>None\<close> or an empty dictionary the call is a GET.
\<close>

definition prepare :: "config \<Rightarrow> string \<Rightarrow> nat option \<Rightarrow> 'w state \<Rightarrow> http_call \<times> 'w state" where
  "prepare cfg endpoint post_data s =
     (case post_data of
        None \<Rightarrow> (Get (url_of cfg endpoint), s)
      | Some p \<Rightarrow>
          if heap s p = [] then (Get (url_of cfg endpoint), s)
          else
            (let s' = store p ''server_key'' (VStr (server_key cfg)) s
             in (Post (url_of cfg endpoint) (heap s' p), s')))"

definition send :: "'w net \<Rightarrow> http_call \<Rightarrow> 'w state \<Rightarrow> outcome \<times> 'w state" where
  "send net call s =
     (case net (world s) call of (out, w) \<Rightarrow> (out, emit (Http call) (s\<lparr>world := w\<rparr>)))"

text \<open>
  The \<^verbatim>\<open>for attempt in range(retries)\<close> loop from \<open>attempt\<close> on. The \<^verbatim>\<open>except\<close> clauses are
  tried in the order of the source: \<^verbatim>\<open>RequestException\<close> first, \<^verbatim>\<open>json.JSONDecodeError\<close>
  second; an exception of neither class propagates.
\<close>

function attempt_loop ::
  "config \<Rightarrow> 'w net \<Rightarrow> string \<Rightarrow> nat option \<Rightarrow> int \<Rightarrow> int \<Rightarrow> 'w state \<Rightarrow> (pyexn + pyval) \<times> 'w state"
where
  "attempt_loop cfg net endpoint post_data retries attempt s =
     (if attempt < retries then
        (case prepare cfg endpoint post_data s of
           (call, s1) \<Rightarrow>
             (case send net call s1 of
                (Returned v, s2) \<Rightarrow> (Inr v, s2)
              | (Raised e, s2) \<Rightarrow>
                  if is_RequestException e then
                    (if attempt = retries - 1
                     then (Inr VNone, emit (StError (ApiFailed retries)) s2)
                     else attempt_loop cfg net endpoint post_data retries (attempt + 1)
                            (emit (Sleep (2 ^ nat attempt)) s2))
                  else if is_JSONDecodeError e
                  then (Inr VNone, emit (StError InvalidJson) s2)
                  else (Inl e, s2)))
      else (Inr VNone, s))"
  by pat_completeness auto
termination
  by (relation "measure (\<lambda>(cfg, net, endpoint, post_data, retries, attempt, s). nat (retries - attempt))")
    auto

definition make_api_request ::
  "config \<Rightarrow> 'w net \<Rightarrow> string \<Rightarrow> nat option \<Rightarrow> int \<Rightarrow> 'w state \<Rightarrow> (pyexn + pyval) \<times> 'w state"
where
  "make_api_request cfg net endpoint post_data retries s =
     attempt_loop cfg net endpoint post_data retries 0 s"

section \<open>Paginator: \<^verbatim>\<open>bulk_fetch_articles\<close>\<close>

text \<open>The variables the \<^verbatim>\<open>while\<close> loop updates.\<close>

record vars =
  all_articles :: "pyval list"
  total_fetched :: int
  page :: int

text \<open>How one pass through the loop body ends.\<close>

datatype flow = Raise pyexn | Break vars | Continue vars

text \<open>
  A trace entry is the request dictionary as the loop built it (before the call) and what
  \<^verbatim>\<open>make_api_request\<close> gave back for it.
\<close>

type_synonym entry = "pydict \<times> (pyexn + pyval)"

text \<open>Lines 116 to 135: what the loop does with the result of the call.\<close>

definition handle_result :: "pyval \<Rightarrow> pyval \<Rightarrow> vars \<Rightarrow> 'w state \<Rightarrow> flow \<times> 'w state" where
  "handle_result result current_limit v s =
     (if \<not> truthy result then (Break v, emit (StError (PageFailed (page v))) s)
      else
        (case result of
           VDict d \<Rightarrow>
             if map_of d ''api_status'' = Some (VInt 200) then
               (let articles_batch = dict_get d ''articles'' (VList []) in
                if \<not> truthy articles_batch then (Break v, s)
                else
                  (case py_iter articles_batch of
                     Inl e \<Rightarrow> (Raise e, s)
                   | Inr items \<Rightarrow>
                       (let v' = v\<lparr>all_articles := all_articles v @ items,
                                   total_fetched := total_fetched v + int (length items)\<rparr>
                        in case as_int current_limit of
                             None \<Rightarrow> (Raise TypeError, s)
                           | Some l \<Rightarrow>
                               if int (length items) < l then (Break v', s)
                               else (Continue (v'\<lparr>page := page v' + 1\<rparr>), emit (Sleep 1) s))))
             else (Break v, emit (StError (PageFailed (page v))) s)
         | _ \<Rightarrow> (Raise AttributeError, s)))"

text \<open>
  Lines 101 to 135: one pass through the loop body. \<open>p\<close> is the address of the caller's
  \<open>post_data\<close>; the copy is a new dictionary at the next free address.
\<close>

definition body ::
  "config \<Rightarrow> 'w net \<Rightarrow> nat \<Rightarrow> pyval \<Rightarrow> pyval \<Rightarrow> int \<Rightarrow> bool \<Rightarrow> vars \<Rightarrow> 'w state
     \<Rightarrow> flow \<times> entry list \<times> 'w state"
where
  "body cfg net p current_offset api_limit total_limit progress v s =
     (let remaining = total_limit - total_fetched v in
      case py_min api_limit (VInt remaining) of
        Inl e \<Rightarrow> (Raise e, [], s)
      | Inr current_limit \<Rightarrow>
          (let q = nxt s;
               s1 = s\<lparr>heap := (heap s)(q := heap s p), nxt := Suc q\<rparr>;
               s2 = store q ''limit'' current_limit s1
           in case py_add_int current_offset (total_fetched v) of
                Inl e \<Rightarrow> (Raise e, [], s2)
              | Inr off \<Rightarrow>
                  (let s3 = store q ''offset'' off s2;
                       s4 = report progress (Progress (page v) off current_limit) s3;
                       req = heap s4 q
                   in case make_api_request cfg net ''get-articles'' (Some q) 3 s4 of
                        (Inl e, s5) \<Rightarrow> (Raise e, [(req, Inl e)], s5)
                      | (Inr result, s5) \<Rightarrow>
                          (case handle_result result current_limit v s5 of
                             (fl, s6) \<Rightarrow> (fl, [(req, Inr result)], s6)))))"

function bulk_loop ::
  "config \<Rightarrow> 'w net \<Rightarrow> nat \<Rightarrow> pyval \<Rightarrow> pyval \<Rightarrow> int \<Rightarrow> bool \<Rightarrow> vars \<Rightarrow> entry list \<Rightarrow> 'w state
     \<Rightarrow> (pyexn + pyval list) \<times> entry list \<times> 'w state"
where
  "bulk_loop cfg net p current_offset api_limit total_limit progress v tr s =
     (if total_fetched v < total_limit then
        (case body cfg net p current_offset api_limit total_limit progress v s of
           (Raise e, es, s') \<Rightarrow> (Inl e, tr @ es, s')
         | (Break v', es, s') \<Rightarrow> (Inr (all_articles v'), tr @ es, s')
         | (Continue v', es, s') \<Rightarrow>
             bulk_loop cfg net p current_offset api_limit total_limit progress v' (tr @ es) s')
      else (Inr (all_articles v), tr, s))"
  by pat_completeness auto
termination
proof (relation "measure (\<lambda>(cfg, net, p, current_offset, api_limit, total_limit, progress, v, tr, s).
        nat (total_limit - total_fetched v))", goal_cases)
  case 1
  show ?case by simp
next
  case (2 cfg net p current_offset api_limit total_limit progress v tr s fl rest v' es s')
  have nonempty: "items \<noteq> []" if "truthy b" and "py_iter b = Inr items" for b items
    using that by (cases b) auto
  have "total_fetched v < total_fetched v'"
    if "handle_result result current_limit v s1 = (Continue v', s2)" for result current_limit s1 s2
    using that
    by (auto simp: handle_result_def Let_def dest: nonempty
        split: if_splits pyval.splits sum.splits option.splits)
  with 2 have "total_fetched v < total_fetched v'"
    by (auto simp: body_def Let_def split: sum.splits prod.splits)
  with 2 show ?case by simp
qed

text \<open>
  \<^verbatim>\<open>bulk_fetch_articles(post_data, total_limit, progress_callback)\<close>: the result or the
  exception that leaves the function, the trace of the requests built, and the final state.
\<close>

definition bulk_fetch_articles ::
  "config \<Rightarrow> 'w net \<Rightarrow> nat \<Rightarrow> int \<Rightarrow> bool \<Rightarrow> 'w state
     \<Rightarrow> (pyexn + pyval list) \<times> entry list \<times> 'w state"
where
  "bulk_fetch_articles cfg net p total_limit progress s =
     (let current_offset = dict_get (heap s p) ''offset'' (VInt 0) in
      case py_min (VInt 1000) (dict_get (heap s p) ''limit'' (VInt 1000)) of
        Inl e \<Rightarrow> (Inl e, [], s)
      | Inr api_limit \<Rightarrow>
          bulk_loop cfg net p current_offset api_limit total_limit progress
            \<lparr>all_articles = [], total_fetched = 0, page = 1\<rparr> [] s)"

section \<open>Normalizer: \<^verbatim>\<open>process_articles_data\<close> and \<^verbatim>\<open>process_users_data\<close>\<close>

text \<open>
  \<^verbatim>\<open>int(x)\<close>. A string is stripped of surrounding white space, may carry one sign, and
  consists of decimal digits, single underscores allowed between digits; anything else
  is a \<^verbatim>\<open>ValueError\<close>. \<^verbatim>\<open>None\<close>, lists and dictionaries are a \<^verbatim>\<open>TypeError\<close>. Strings are
  ASCII here.
\<close>

definition is_space :: "char \<Rightarrow> bool" where
  "is_space c = (c \<in> set [CHR '' '', CHR 0x09, CHR 0x0A, CHR 0x0B, CHR 0x0C, CHR 0x0D,
                            CHR 0x1C, CHR 0x1D, CHR 0x1E, CHR 0x1F])"

definition strip :: "string \<Rightarrow> string" where
  "strip s = rev (dropWhile is_space (rev (dropWhile is_space s)))"

definition digit_of :: "char \<Rightarrow> int option" where
  "digit_of c =
     map_of [(CHR ''0'', 0), (CHR ''1'', 1), (CHR ''2'', 2), (CHR ''3'', 3), (CHR ''4'', 4),
             (CHR ''5'', 5), (CHR ''6'', 6), (CHR ''7'', 7), (CHR ''8'', 8), (CHR ''9'', 9)] c"

fun parse_digits :: "int \<Rightarrow> bool \<Rightarrow> string \<Rightarrow> int option" where
  "parse_digits acc after_digit [] = (if after_digit then Some acc else None)"
| "parse_digits acc after_digit (c # cs) =
     (if c = CHR ''_'' then (if after_digit then parse_digits acc False cs else None)
      else (case digit_of c of
              None \<Rightarrow> None
            | Some d \<Rightarrow> parse_digits (10 * acc + d) True cs))"

definition int_of_str :: "string \<Rightarrow> int option" where
  "int_of_str s =
     (case strip s of
        [] \<Rightarrow> None
      | c # cs \<Rightarrow>
          if c = CHR ''-'' then map_option uminus (parse_digits 0 False cs)
          else if c = CHR ''+'' then parse_digits 0 False cs
          else parse_digits 0 False (c # cs))"

fun py_int :: "pyval \<Rightarrow> pyexn + int" where
  "py_int (VInt n) = Inr n"
| "py_int (VBool b) = Inr (if b then 1 else 0)"
| "py_int (VStr s) = (case int_of_str s of None \<Rightarrow> Inl ValueError | Some n \<Rightarrow> Inr n)"
| "py_int _ = Inl TypeError"

text \<open>
  The standard library enters as two parameters: \<open>json_loads\<close> is \<^verbatim>\<open>json.loads\<close>
  (\<open>None\<close> where it raises \<^verbatim>\<open>JSONDecodeError\<close>), and \<open>strftime\<close> is
  \<^verbatim>\<open>datetime.fromtimestamp(t).strftime('%Y-%m-%d %H:%M:%S')\<close>, which returns the calendar
  string of the host's local time or raises.
\<close>

type_synonym json_loads = "string \<Rightarrow> pyval option"
type_synonym strftime = "int \<Rightarrow> pyexn + string"

definition extract_author_info :: "json_loads \<Rightarrow> pyval \<Rightarrow> pyval \<times> pyval" where
  "extract_author_info json_loads author_data =
     (if \<not> truthy author_data then (VNone, VNone)
      else
        (case (case author_data of VStr s \<Rightarrow> json_loads s | _ \<Rightarrow> Some author_data) of
           None \<Rightarrow> (VNone, VNone)
         | Some (VDict d) \<Rightarrow> (dict_get d ''username'' (VStr []), dict_get d ''email'' (VStr []))
         | Some _ \<Rightarrow> (VNone, VNone)))"

text \<open>Lines 155 to 157: the loop over the items of the author dictionary.\<close>

definition flatten_author :: "pydict \<Rightarrow> pydict \<Rightarrow> pydict" where
  "flatten_author author_data processed =
     fold (\<lambda>kv r. if fst kv \<notin> set [''username'', ''email'']
                   then AList.update (''author_'' @ fst kv) (snd kv) r else r)
       author_data processed"

text \<open>Lines 188-189 and 199-200: every item goes to the key \<open>prefix @ key\<close>.\<close>

definition flatten_items :: "string \<Rightarrow> pydict \<Rightarrow> pydict \<Rightarrow> pydict" where
  "flatten_items prefix items processed =
     fold (\<lambda>kv r. AList.update (prefix @ fst kv) (snd kv) r) items processed"

text \<open>
  The loop over the date fields. The \<^verbatim>\<open>try\<close> covers \<^verbatim>\<open>int(...)\<close> and the conversion;
  \<^verbatim>\<open>except (ValueError, TypeError): pass\<close> swallows those two classes, any other exception
  leaves the function.
\<close>

fun convert_timestamps :: "strftime \<Rightarrow> string list \<Rightarrow> pydict \<Rightarrow> pyexn + pydict" where
  "convert_timestamps strftime [] r = Inr r"
| "convert_timestamps strftime (date_field # fs) r =
     (case map_of r date_field of
        None \<Rightarrow> convert_timestamps strftime fs r
      | Some x \<Rightarrow>
          if \<not> truthy x then convert_timestamps strftime fs r
          else
            (case py_int x of
               Inl e \<Rightarrow>
                 if is_ValueError e \<or> is_TypeError e then convert_timestamps strftime fs r
                 else Inl e
             | Inr timestamp \<Rightarrow>
                 (case strftime timestamp of
                    Inl e \<Rightarrow>
                      if is_ValueError e \<or> is_TypeError e then convert_timestamps strftime fs r
                      else Inl e
                  | Inr str \<Rightarrow>
                      convert_timestamps strftime fs
                        (AList.update (date_field @ ''_readable'') (VStr str) r))))"

definition article_date_fields :: "string list" where
  "article_date_fields = [''time'', ''created_at'', ''updated_at'']"

definition user_date_fields :: "string list" where
  "user_date_fields = [''lastseen'', ''last_data_update'', ''point_day_expire'']"

text \<open>Lines 144 to 172: the body of the loop of \<^verbatim>\<open>process_articles_data\<close> for one article.\<close>

definition process_article :: "json_loads \<Rightarrow> strftime \<Rightarrow> pydict \<Rightarrow> pyexn + pydict" where
  "process_article json_loads strftime article =
     (let author_data = dict_get article ''author'' (VDict []);
          ids = extract_author_info json_loads author_data;
          r1 = AList.update ''author_username'' (fst ids) article;
          r2 = AList.update ''author_email'' (snd ids) r1;
          r3 = (case author_data of VDict d \<Rightarrow> flatten_author d r2 | _ \<Rightarrow> r2);
          r4 = (case map_of article ''category'' of
                  Some (VDict category_data) \<Rightarrow>
                    AList.update ''category_id'' (dict_get category_data ''id'' (VStr []))
                      (AList.update ''category_name'' (dict_get category_data ''name'' (VStr [])) r3)
                | _ \<Rightarrow> r3)
      in convert_timestamps strftime article_date_fields r4)"

text \<open>
  An element that is not a dictionary has no \<^verbatim>\<open>get\<close> (or no \<^verbatim>\<open>copy\<close>): \<^verbatim>\<open>AttributeError\<close>.
  An exception in one record ends the whole call.
\<close>

fun process_articles_data :: "json_loads \<Rightarrow> strftime \<Rightarrow> pyval list \<Rightarrow> pyexn + pydict list" where
  "process_articles_data json_loads strftime [] = Inr []"
| "process_articles_data json_loads strftime (a # articles) =
     (case a of
        VDict article \<Rightarrow>
          (case process_article json_loads strftime article of
             Inl e \<Rightarrow> Inl e
           | Inr processed \<Rightarrow>
               (case process_articles_data json_loads strftime articles of
                  Inl e \<Rightarrow> Inl e
                | Inr rest \<Rightarrow> Inr (processed # rest)))
      | _ \<Rightarrow> Inl AttributeError)"

text \<open>
  Lines 192 to 202: a string is decoded first (\<^verbatim>\<open>JSONDecodeError\<close> is swallowed); the
  value must then have \<^verbatim>\<open>items()\<close>, and \<^verbatim>\<open>AttributeError\<close> is not among the classes caught.
\<close>

definition notification_fields :: "json_loads \<Rightarrow> pydict \<Rightarrow> pydict \<Rightarrow> pyexn + pydict" where
  "notification_fields json_loads user processed =
     (case map_of user ''notification_settings'' of
        None \<Rightarrow> Inr processed
      | Some ns \<Rightarrow>
          (case (case ns of VStr s \<Rightarrow> json_loads s | _ \<Rightarrow> Some ns) of
             None \<Rightarrow> Inr processed
           | Some (VDict notification_settings) \<Rightarrow>
               Inr (flatten_items ''notification_'' notification_settings processed)
           | Some _ \<Rightarrow> Inl AttributeError))"

definition process_user :: "json_loads \<Rightarrow> strftime \<Rightarrow> pydict \<Rightarrow> pyexn + pydict" where
  "process_user json_loads strftime user =
     (let r1 = (case map_of user ''details'' of
                  Some (VDict details) \<Rightarrow> flatten_items ''details_'' details user
                | _ \<Rightarrow> user)
      in case notification_fields json_loads user r1 of
           Inl e \<Rightarrow> Inl e
         | Inr r2 \<Rightarrow> convert_timestamps strftime user_date_fields r2)"

fun process_users_data :: "json_loads \<Rightarrow> strftime \<Rightarrow> pyval list \<Rightarrow> pyexn + pydict list" where
  "process_users_data json_loads strftime [] = Inr []"
| "process_users_data json_loads strftime (u # users) =
     (case u of
        VDict user \<Rightarrow>
          (case process_user json_loads strftime user of
             Inl e \<Rightarrow> Inl e
           | Inr processed \<Rightarrow>
               (case process_users_data json_loads strftime users of
                  Inl e \<Rightarrow> Inl e
                | Inr rest \<Rightarrow> Inr (processed # rest)))
      | _ \<Rightarrow> Inl AttributeError)"

subsection \<open>A host for running the normalizer\<close>

text \<open>
  \<open>utc_strftime\<close> is the conversion on a 64-bit Linux host whose local zone is UTC:
  a value outside \<^verbatim>\<open>time_t\<close> is an \<^verbatim>\<open>OverflowError\<close>, a year that does not fit the C
  \<^verbatim>\<open>int\<close> of \<^verbatim>\<open>tm_year\<close> an \<^verbatim>\<open>OSError\<close>, a year outside 1..9999
  (\<^verbatim>\<open>datetime.MINYEAR\<close>, \<^verbatim>\<open>datetime.MAXYEAR\<close>) a \<^verbatim>\<open>ValueError\<close>.
\<close>

definition civil_from_days :: "int \<Rightarrow> int \<times> int \<times> int" where
  "civil_from_days z0 =
     (let z = z0 + 719468;
          era = z div 146097;
          doe = z - era * 146097;
          yoe = (doe - doe div 1460 + doe div 36524 - doe div 146096) div 365;
          doy = doe - (365 * yoe + yoe div 4 - yoe div 100);
          mp = (5 * doy + 2) div 153;
          d = doy - (153 * mp + 2) div 5 + 1;
          m = (if mp < 10 then mp + 3 else mp - 9);
          y = yoe + era * 400 + (if m \<le> 2 then 1 else 0)
      in (y, m, d))"

definition digit_char :: "int \<Rightarrow> char" where
  "digit_char d = ''0123456789'' ! nat d"

definition pad2 :: "int \<Rightarrow> string" where
  "pad2 n = [digit_char (n div 10 mod 10), digit_char (n mod 10)]"

definition pad4 :: "int \<Rightarrow> string" where
  "pad4 n = pad2 (n div 100) @ pad2 (n mod 100)"

definition utc_strftime :: strftime where
  "utc_strftime t =
     (if t < - (2 ^ 63) \<or> 2 ^ 63 \<le> t then Inl OverflowError
      else
        (case civil_from_days (t div 86400) of
           (y, m, d) \<Rightarrow>
             if y - 1900 < - (2 ^ 31) \<or> 2 ^ 31 \<le> y - 1900 then Inl OSError
             else if y < 1 \<or> 9999 < y then Inl ValueError
             else
               (let secs = t mod 86400
                in Inr (pad4 y @ ''-'' @ pad2 m @ ''-'' @ pad2 d @ '' '' @ pad2 (secs div 3600)
                        @ '':'' @ pad2 (secs div 60 mod 60) @ '':'' @ pad2 (secs mod 60)))))"

text \<open>A decoder that knows one document and rejects every other string.\<close>

definition sample_json_loads :: json_loads where
  "sample_json_loads s =
     (if s = ''{\"likes\": 1}'' then Some (VDict [(''likes'', VInt 1)]) else None)"

section \<open>Vocabulary of the properties\<close>

text \<open>Reading a trace entry: the response is a success payload when it is a dictionary
  whose \<^verbatim>\<open>api_status\<close> equals 200; its records are the items of its \<^verbatim>\<open>articles\<close>.\<close>

definition is_success :: "pyexn + pyval \<Rightarrow> bool" where
  "is_success resp =
     (case resp of Inr (VDict d) \<Rightarrow> map_of d ''api_status'' = Some (VInt 200) | _ \<Rightarrow> False)"

definition records :: "pyexn + pyval \<Rightarrow> pyval list" where
  "records resp =
     (case resp of
        Inr (VDict d) \<Rightarrow>
          if map_of d ''api_status'' = Some (VInt 200)
          then (case py_iter (dict_get d ''articles'' (VList [])) of Inr items \<Rightarrow> items | Inl e \<Rightarrow> [])
          else []
      | _ \<Rightarrow> [])"

text \<open>A failed page: \<^verbatim>\<open>make_api_request\<close> gave \<^verbatim>\<open>None\<close> (the transport failed) or another
  false object, or a dictionary whose \<^verbatim>\<open>api_status\<close> is not 200.\<close>

definition is_failure :: "pyexn + pyval \<Rightarrow> bool" where
  "is_failure resp =
     (case resp of
        Inr (VDict d) \<Rightarrow> map_of d ''api_status'' \<noteq> Some (VInt 200)
      | Inr v \<Rightarrow> \<not> truthy v
      | Inl e \<Rightarrow> False)"

text \<open>The integer in the \<^verbatim>\<open>limit\<close> and in the \<^verbatim>\<open>offset\<close> field of a request.\<close>

definition limit_of :: "pydict \<Rightarrow> int option" where
  "limit_of req = (case map_of req ''limit'' of None \<Rightarrow> None | Some l \<Rightarrow> as_int l)"

definition offset_of :: "pydict \<Rightarrow> int option" where
  "offset_of req = (case map_of req ''offset'' of None \<Rightarrow> None | Some l \<Rightarrow> as_int l)"

text \<open>A page that lets the loop go on: a success payload with at least one record and
  no fewer records than the request's limit.\<close>

definition full_page :: "entry \<Rightarrow> bool" where
  "full_page e =
     (is_success (snd e) \<and> records (snd e) \<noteq> [] \<and>
      (case limit_of (fst e) of None \<Rightarrow> False | Some n \<Rightarrow> n \<le> int (length (records (snd e)))))"

definition fetched :: "entry list \<Rightarrow> pyval list" where
  "fetched tr = concat (map (\<lambda>e. records (snd e)) tr)"

text \<open>\<open>ceil_div a b\<close> is \<open>a / b\<close> rounded up, for positive \<open>b\<close>. The page size in force is
  \<^verbatim>\<open>min(1000, post_data.get('limit', 1000))\<close>, and at least one record per page.\<close>

definition ceil_div :: "int \<Rightarrow> int \<Rightarrow> int" where
  "ceil_div a b = (a + b - 1) div b"

definition page_size :: "pydict \<Rightarrow> int" where
  "page_size post_data =
     (case as_int (dict_get post_data ''limit'' (VInt 1000)) of
        None \<Rightarrow> 1000
      | Some n \<Rightarrow> max 1 (min 1000 n))"

subsection \<open>Sample runs\<close>

definition sample_article :: pyval where
  "sample_article = VDict [(''id'', VInt 1)]"

text \<open>A server that answers every POST with exactly as many records as its \<^verbatim>\<open>limit\<close> asks for.\<close>

definition exact_server :: "unit net" where
  "exact_server w call =
     (case call of
        Post url d \<Rightarrow>
          (case as_int (dict_get d ''limit'' (VInt 0)) of
             Some n \<Rightarrow>
               (Returned (VDict [(''api_status'', VInt 200),
                                 (''articles'', VList (replicate (nat n) sample_article))]), w)
           | None \<Rightarrow> (Raised ReqHTTPError, w))
      | Get url \<Rightarrow> (Raised ReqHTTPError, w))"

text \<open>A server whose answers are listed in advance; the world state is the list of the
  answers still to come, and the connection fails when it is used up.\<close>

definition scripted_server :: "outcome list net" where
  "scripted_server w call = (case w of [] \<Rightarrow> (Raised ReqConnectionError, []) | out # rest \<Rightarrow> (out, rest))"

definition sample_config :: config where
  "sample_config = \<lparr>site_url = ''https://example.org/'', access_token = ''t'', server_key = ''k''\<rparr>"

text \<open>The state in which the caller's dictionary \<open>d\<close> is the only object, at address 0.\<close>

definition state_with :: "pydict \<Rightarrow> 'w \<Rightarrow> 'w state" where
  "state_with d w = \<lparr>heap = (\<lambda>a. [])(0 := d), nxt = 1, world = w, log = []\<rparr>"

definition base_request :: pydict where
  "base_request = [(''limit'', VInt 1000), (''offset'', VInt 0)]"

definition page_of :: "pyval list \<Rightarrow> pyval" where
  "page_of xs = VDict [(''api_status'', VInt 200), (''articles'', VList xs)]"

text \<open>A target of 2500 against the exact server.\<close>

definition sample_run :: "(pyexn + pyval list) \<times> entry list \<times> unit state" where
  "sample_run =
     bulk_fetch_articles sample_config exact_server 0 2500 False (state_with base_request ())"

text \<open>A base request with \<^verbatim>\<open>limit\<close> 1, a target of 3.\<close>

definition small_pages_run :: "(pyexn + pyval list) \<times> entry list \<times> unit state" where
  "small_pages_run =
     bulk_fetch_articles sample_config exact_server 0 3 False (state_with [(''limit'', VInt 1)] ())"

text \<open>A target of 2500; the server has two records only.\<close>

definition short_page_run :: "(pyexn + pyval list) \<times> entry list \<times> outcome list state" where
  "short_page_run =
     bulk_fetch_articles sample_config scripted_server 0 2500 False
       (state_with base_request [Returned (page_of [sample_article, sample_article])])"

text \<open>Pages of two records, a target of 5; the first page arrives, then every attempt
  of the second page times out.\<close>

definition failing_run :: "(pyexn + pyval list) \<times> entry list \<times> outcome list state" where
  "failing_run =
     bulk_fetch_articles sample_config scripted_server 0 5 False
       (state_with [(''limit'', VInt 2)]
          [Returned (page_of [sample_article, VDict [(''id'', VInt 2)]]),
           Raised ReqTimeout, Raised ReqTimeout, Raised ReqTimeout])"

section \<open>Lemmas about the paginator\<close>

section \<open>Properties of the paginator\<close>

declare bulk_loop.simps [simp del] attempt_loop.simps [simp del]

lemma heap_emit [simp]: "heap (emit e s) = heap s" and nxt_emit [simp]: "nxt (emit e s) = nxt s"
  and world_emit [simp]: "world (emit e s) = world s"
  by (simp_all add: emit_def)

lemma heap_report [simp]: "heap (report b e s) = heap s" and nxt_report [simp]: "nxt (report b e s) = nxt s"
  and world_report [simp]: "world (report b e s) = world s"
  by (simp_all add: report_def)

lemma heap_store [simp]: "heap (store p k v s) = (heap s)(p := AList.update k v (heap s p))"
  and nxt_store [simp]: "nxt (store p k v s) = nxt s"
  by (simp_all add: store_def)

lemma records_not_success [simp]: "\<not> is_success resp \<Longrightarrow> records resp = []"
  by (auto simp: is_success_def records_def split: sum.splits pyval.splits)

lemma is_failure_not_success: "is_failure resp \<Longrightarrow> \<not> is_success resp"
  by (auto simp: is_success_def is_failure_def split: sum.splits pyval.splits)

lemma py_iter_falsy: "\<not> truthy b \<Longrightarrow> py_iter b = Inr items \<Longrightarrow> items = []"
  by (cases b) auto

lemma py_iter_truthy: "truthy b \<Longrightarrow> py_iter b = Inr items \<Longrightarrow> items \<noteq> []"
  by (cases b) auto

lemma py_min_bound:
  "py_min a b = Inr c \<Longrightarrow> as_int a = Some x \<Longrightarrow> \<exists>n. as_int c = Some n \<and> n \<le> x"
  by (auto simp: py_min_def split: option.splits if_splits)

lemma py_min_value:
  "py_min a b = Inr c \<Longrightarrow> as_int a = Some x \<Longrightarrow> as_int b = Some y \<Longrightarrow> as_int c = Some (min x y)"
  by (auto simp: py_min_def split: option.splits if_splits)

text \<open>What one pass through the loop body leaves in the trace and in the variables.\<close>

lemma handle_result_Continue:
  assumes "handle_result result current_limit v s = (Continue v', s')"
  shows "is_success (Inr result) \<and> records (Inr result) \<noteq> []
    \<and> (\<exists>n. as_int current_limit = Some n \<and> n \<le> int (length (records (Inr result))))
    \<and> all_articles v' = all_articles v @ records (Inr result)
    \<and> total_fetched v' = total_fetched v + int (length (records (Inr result)))"
  using assms
  by (auto simp: handle_result_def Let_def is_success_def records_def dest: py_iter_truthy
      split: if_splits pyval.splits sum.splits option.splits)

lemma handle_result_Break:
  assumes "handle_result result current_limit v s = (Break v', s')"
  shows "all_articles v' = all_articles v @ records (Inr result)
    \<and> total_fetched v' = total_fetched v + int (length (records (Inr result)))"
  using assms
  by (auto simp: handle_result_def Let_def is_success_def records_def dest: py_iter_falsy
      split: if_splits pyval.splits sum.splits option.splits)

lemma handle_result_Raise:
  assumes "handle_result result current_limit v s = (Raise e, s')"
  shows "\<not> is_failure (Inr result)"
  using assms
  by (auto simp: handle_result_def Let_def is_failure_def
      split: if_splits pyval.splits sum.splits option.splits)

lemma body_entries:
  assumes "body cfg net p current_offset api_limit total_limit progress v s = (fl, es, s')"
  shows "length es \<le> 1"
    and "\<forall>e \<in> set es. \<exists>l. map_of (fst e) ''limit'' = Some l
            \<and> py_min api_limit (VInt (total_limit - total_fetched v)) = Inr l"
    and "\<forall>e \<in> set es. \<exists>off. map_of (fst e) ''offset'' = Some off
            \<and> py_add_int current_offset (total_fetched v) = Inr off"
  using assms
  by (auto simp: body_def Let_def update_conv' split: sum.splits prod.splits)

lemma body_Continue_entry:
  assumes "body cfg net p current_offset api_limit total_limit progress v s = (Continue v', es, s')"
  shows "\<exists>e. es = [e] \<and> full_page e
    \<and> all_articles v' = all_articles v @ records (snd e)
    \<and> total_fetched v' = total_fetched v + int (length (records (snd e)))"
  using assms
  by (auto simp: body_def Let_def update_conv' full_page_def limit_of_def
      dest!: handle_result_Continue split: sum.splits prod.splits)

lemma body_Break_entry:
  assumes "body cfg net p current_offset api_limit total_limit progress v s = (Break v', es, s')"
  shows "\<exists>e. es = [e]
    \<and> all_articles v' = all_articles v @ records (snd e)
    \<and> total_fetched v' = total_fetched v + int (length (records (snd e)))"
  using assms
  by (auto simp: body_def Let_def dest!: handle_result_Break split: sum.splits prod.splits)

lemma body_Raise_entry:
  assumes "body cfg net p current_offset api_limit total_limit progress v s = (Raise e, es, s')"
  shows "\<forall>x \<in> set es. \<not> is_failure (snd x)"
  using assms
  by (auto simp: body_def Let_def is_failure_def dest!: handle_result_Raise
      split: sum.splits prod.splits)

lemma body_Continue:
  "body cfg net p current_offset api_limit total_limit progress v s = (Continue v', es, s')
   \<Longrightarrow> total_fetched v < total_fetched v'"
  by (auto dest!: body_Continue_entry simp: full_page_def)

lemma bulk_loop_induct [case_names step]:
  assumes step: "\<And>v tr s.
      (\<And>v' es s'. total_fetched v < total_limit \<Longrightarrow>
         body cfg net p current_offset api_limit total_limit progress v s = (Continue v', es, s') \<Longrightarrow>
         P v' (tr @ es) s') \<Longrightarrow> P v tr s"
  shows "P v tr s"
proof (induction "nat (total_limit - total_fetched v)" arbitrary: v tr s rule: less_induct)
  case (less v tr s)
  show ?case
  proof (rule step)
    fix v' es s'
    assume lt: "total_fetched v < total_limit"
      and b: "body cfg net p current_offset api_limit total_limit progress v s = (Continue v', es, s')"
    from body_Continue [OF b] lt
    have "nat (total_limit - total_fetched v') < nat (total_limit - total_fetched v)" by simp
    then show "P v' (tr @ es) s'" by (rule less)
  qed
qed

lemma bulk_loop_cases [consumes 1, case_names stop raise break continue]:
  assumes "bulk_loop cfg net p current_offset api_limit total_limit progress v tr s = (r, tr', s')"
  obtains
    "\<not> total_fetched v < total_limit" "r = Inr (all_articles v)" "tr' = tr" "s' = s"
  | e es where "total_fetched v < total_limit"
      "body cfg net p current_offset api_limit total_limit progress v s = (Raise e, es, s')"
      "r = Inl e" "tr' = tr @ es"
  | v' es where "total_fetched v < total_limit"
      "body cfg net p current_offset api_limit total_limit progress v s = (Break v', es, s')"
      "r = Inr (all_articles v')" "tr' = tr @ es"
  | v' es s1 where "total_fetched v < total_limit"
      "body cfg net p current_offset api_limit total_limit progress v s = (Continue v', es, s1)"
      "bulk_loop cfg net p current_offset api_limit total_limit progress v' (tr @ es) s1 = (r, tr', s')"
proof (cases "total_fetched v < total_limit")
  case False
  with assms that(1) show ?thesis by (simp add: bulk_loop.simps)
next
  case True
  obtain fl es s1 where b: "body cfg net p current_offset api_limit total_limit progress v s = (fl, es, s1)"
    by (cases "body cfg net p current_offset api_limit total_limit progress v s") auto
  show ?thesis
  proof (cases fl)
    case (Raise e)
    with assms True b that(2) [of e es] show ?thesis by (simp add: bulk_loop.simps)
  next
    case (Break v')
    with assms True b that(3) [of v' es] show ?thesis by (simp add: bulk_loop.simps)
  next
    case (Continue v')
    with assms True b that(4) [of v' es s1] show ?thesis by (simp add: bulk_loop.simps)
  qed
qed

text \<open>The trace of the loop: every page before the last one is a full page, the value
  returned is what the pages brought, and an exception never follows a failed page.\<close>

lemma fetched_simps [simp]:
  "fetched [] = []" "fetched (e # tr) = records (snd e) @ fetched tr"
  "fetched (tr @ tr2) = fetched tr @ fetched tr2"
  by (simp_all add: fetched_def)

lemma bulk_loop_trace:
  "bulk_loop cfg net p current_offset api_limit total_limit progress v tr s = (r, tr', s') \<Longrightarrow>
   \<exists>suf. tr' = tr @ suf \<and> (\<forall>e \<in> set (butlast suf). full_page e)
     \<and> (\<forall>xs. r = Inr xs \<longrightarrow> xs = all_articles v @ fetched suf)
     \<and> (\<forall>e. r = Inl e \<longrightarrow> suf = [] \<or> \<not> is_failure (snd (last suf)))"
proof (induction v tr s rule: bulk_loop_induct [where total_limit = total_limit and cfg = cfg and net = net
      and p = p and current_offset = current_offset and api_limit = api_limit and progress = progress])
  case (step v tr s)
  from step.prems show ?case
  proof (cases rule: bulk_loop_cases)
    case stop
    then show ?thesis by simp
  next
    case (raise e es)
    from body_entries(1) [OF raise(2)] have "butlast es = []"
      by (cases es) auto
    moreover from body_Raise_entry [OF raise(2)] have "es = [] \<or> \<not> is_failure (snd (last es))"
      by auto
    ultimately show ?thesis using raise by auto
  next
    case (break v' es)
    from body_Break_entry [OF break(2)] break show ?thesis by auto
  next
    case (continue v' es s1)
    from body_Continue_entry [OF continue(2)] obtain e where e: "es = [e]" "full_page e"
      "all_articles v' = all_articles v @ records (snd e)" by auto
    from step.IH [OF continue] obtain suf where suf: "tr' = (tr @ es) @ suf"
      "\<forall>e \<in> set (butlast suf). full_page e"
      "\<forall>xs. r = Inr xs \<longrightarrow> xs = all_articles v' @ fetched suf"
      "\<forall>e. r = Inl e \<longrightarrow> suf = [] \<or> \<not> is_failure (snd (last suf))" by blast
    have "\<forall>x \<in> set (butlast (e # suf)). full_page x"
      using e(2) suf(2) by (cases suf) auto
    moreover have "\<forall>xs. r = Inr xs \<longrightarrow> xs = all_articles v @ fetched (e # suf)"
      using suf(3) e(3) by simp
    moreover have "\<forall>x. r = Inl x \<longrightarrow> \<not> is_failure (snd (last (e # suf)))"
      using suf(4) e(2) by (auto simp: full_page_def dest: is_failure_not_success)
    moreover have "tr' = tr @ (e # suf)" using suf(1) e(1) by simp
    ultimately show ?thesis by blast
  qed
qed

lemma bulk_loop_offsets:
  assumes b: "as_int current_offset = Some b"
  shows "bulk_loop cfg net p current_offset api_limit total_limit progress v tr s = (r, tr', s') \<Longrightarrow>
   \<exists>suf. tr' = tr @ suf \<and>
     (\<forall>i < length suf. offset_of (fst (suf ! i))
         = Some (b + total_fetched v + int (length (fetched (take i suf)))))"
proof (induction v tr s rule: bulk_loop_induct [where total_limit = total_limit and cfg = cfg and net = net
      and p = p and current_offset = current_offset and api_limit = api_limit and progress = progress])
  case (step v tr s)
  have first: "\<forall>e \<in> set es. offset_of (fst e) = Some (b + total_fetched v)"
    if "body cfg net p current_offset api_limit total_limit progress v s = (fl, es, s1)" for fl es s1
    using body_entries(3) [OF that] b by (auto simp: offset_of_def py_add_int_def)
  have single: "\<forall>i < length es. offset_of (fst (es ! i))
         = Some (b + total_fetched v + int (length (fetched (take i es))))"
    if "body cfg net p current_offset api_limit total_limit progress v s = (fl, es, s1)" for fl es s1
  proof -
    from body_entries(1) [OF that] have "es = [] \<or> (\<exists>e. es = [e])"
      by (cases es) auto
    with first [OF that] show ?thesis by auto
  qed
  from step.prems show ?case
  proof (cases rule: bulk_loop_cases)
    case stop
    then show ?thesis by simp
  next
    case (raise e es)
    with single [OF raise(2)] show ?thesis by blast
  next
    case (break v' es)
    with single [OF break(2)] show ?thesis by blast
  next
    case (continue v' es s1)
    from body_Continue_entry [OF continue(2)] obtain e where e: "es = [e]"
      "total_fetched v' = total_fetched v + int (length (records (snd e)))" by auto
    from first [OF continue(2)] e(1) have e0: "offset_of (fst e) = Some (b + total_fetched v)"
      by simp
    from step.IH [OF continue] obtain suf where suf: "tr' = (tr @ es) @ suf"
      "\<forall>i < length suf. offset_of (fst (suf ! i))
         = Some (b + total_fetched v' + int (length (fetched (take i suf))))" by blast
    have "offset_of (fst ((e # suf) ! i))
         = Some (b + total_fetched v + int (length (fetched (take i (e # suf)))))"
      if "i < length (e # suf)" for i
    proof (cases i)
      case 0
      with e0 show ?thesis by simp
    next
      case (Suc j)
      with that suf(2) e(2) show ?thesis by simp
    qed
    moreover have "tr' = tr @ (e # suf)" using suf(1) e(1) by simp
    ultimately show ?thesis by blast
  qed
qed

text \<open>Counting the passes through the loop.\<close>

lemma ceil_div_nonneg: "0 \<le> x \<Longrightarrow> 1 \<le> b \<Longrightarrow> 0 \<le> ceil_div x b"
  by (simp add: ceil_div_def pos_imp_zdiv_nonneg_iff)

lemma ceil_div_pos: "1 \<le> x \<Longrightarrow> 1 \<le> b \<Longrightarrow> 1 \<le> ceil_div x b"
proof -
  assume "1 \<le> x" "1 \<le> b"
  then have "b div b \<le> (x + b - 1) div b" by (intro zdiv_mono1) auto
  with \<open>1 \<le> b\<close> show ?thesis by (simp add: ceil_div_def)
qed

lemma ceil_div_mono: "x \<le> y \<Longrightarrow> 1 \<le> b \<Longrightarrow> ceil_div x b \<le> ceil_div y b"
  by (simp add: ceil_div_def zdiv_mono1)

lemma ceil_div_step: "1 \<le> b \<Longrightarrow> ceil_div (x - b) b + 1 = ceil_div x b"
proof -
  assume b: "1 \<le> b"
  have "(x - b + b - 1 + b) div b = (x - b + b - 1) div b + 1"
    using b by (subst div_add_self2) auto
  then show ?thesis by (simp add: ceil_div_def algebra_simps)
qed

lemma body_Continue_progress:
  assumes "body cfg net p current_offset api_limit total_limit progress v s = (Continue v', es, s')"
    and a: "as_int api_limit = Some a"
  shows "total_fetched v + max 1 (min a (total_limit - total_fetched v)) \<le> total_fetched v'"
proof -
  from body_Continue_entry [OF assms(1)] obtain e where e: "es = [e]" "full_page e"
    "total_fetched v' = total_fetched v + int (length (records (snd e)))" by auto
  from body_entries(2) [OF assms(1)] e(1) obtain l where l: "map_of (fst e) ''limit'' = Some l"
    "py_min api_limit (VInt (total_limit - total_fetched v)) = Inr l" by auto
  from py_min_value [OF l(2) a] have "as_int l = Some (min a (total_limit - total_fetched v))"
    by simp
  with l(1) e(2) have "min a (total_limit - total_fetched v) \<le> int (length (records (snd e)))"
    and "records (snd e) \<noteq> []"
    by (auto simp: full_page_def limit_of_def)
  then have "max 1 (min a (total_limit - total_fetched v)) \<le> int (length (records (snd e)))"
    by (cases "records (snd e)") auto
  with e(3) show ?thesis by simp
qed

lemma bulk_loop_count:
  assumes a: "as_int api_limit = Some a"
  shows "bulk_loop cfg net p current_offset api_limit total_limit progress v tr s = (r, tr', s') \<Longrightarrow>
    int (length tr') \<le> int (length tr) + ceil_div (max 0 (total_limit - total_fetched v)) (max 1 a)"
proof (induction v tr s rule: bulk_loop_induct [where total_limit = total_limit and cfg = cfg and net = net
      and p = p and current_offset = current_offset and api_limit = api_limit and progress = progress])
  case (step v tr s)
  let ?b = "max 1 a"
  let ?rem = "total_limit - total_fetched v"
  have b: "1 \<le> ?b" by simp
  from step.prems show ?case
  proof (cases rule: bulk_loop_cases)
    case stop
    with ceil_div_nonneg [of "max 0 ?rem" ?b] show ?thesis by simp
  next
    case (raise e es)
    from raise(1) have "1 \<le> ceil_div (max 0 ?rem) ?b" by (intro ceil_div_pos) auto
    with body_entries(1) [OF raise(2)] raise(4) show ?thesis by simp
  next
    case (break v' es)
    from break(1) have "1 \<le> ceil_div (max 0 ?rem) ?b" by (intro ceil_div_pos) auto
    with body_entries(1) [OF break(2)] break(4) show ?thesis by simp
  next
    case (continue v' es s1)
    from body_entries(1) [OF continue(2)] have len: "int (length (tr @ es)) \<le> int (length tr) + 1"
      by simp
    from body_Continue_progress [OF continue(2) a]
    have "total_fetched v + min ?b ?rem \<le> total_fetched v'"
      using continue(1) by (auto simp: min_def max_def split: if_splits)
    then have rem': "max 0 (total_limit - total_fetched v') \<le> max 0 (?rem - ?b)"
      by (auto simp: min_def max_def split: if_splits)
    have "ceil_div (max 0 (?rem - ?b)) ?b + 1 \<le> ceil_div (max 0 ?rem) ?b"
    proof (cases "?rem \<le> ?b")
      case True
      then have "max 0 (?rem - ?b) = 0" by simp
      moreover have "ceil_div 0 ?b = 0" by (simp add: ceil_div_def)
      moreover from continue(1) have "1 \<le> ceil_div (max 0 ?rem) ?b" by (intro ceil_div_pos) auto
      ultimately show ?thesis by simp
    next
      case False
      then have "max 0 (?rem - ?b) = ?rem - ?b" "max 0 ?rem = ?rem" by auto
      with ceil_div_step [OF b, of ?rem] show ?thesis by simp
    qed
    with ceil_div_mono [OF rem' b]
    have "ceil_div (max 0 (total_limit - total_fetched v')) ?b + 1 \<le> ceil_div (max 0 ?rem) ?b"
      by linarith
    with step.IH [OF continue] len show ?thesis by linarith
  qed
qed

text \<open>The store: the transport writes only into the dictionary it was given, and the
  loop body only into the copy it has just made.\<close>

lemma prepare_frame:
  assumes "prepare cfg endpoint post_data s = (call, s1)"
  shows "nxt s1 = nxt s" and "post_data \<noteq> Some a \<Longrightarrow> heap s1 a = heap s a"
  using assms by (auto simp: prepare_def Let_def split: option.splits if_splits)

lemma send_frame:
  assumes "send net call s = (out, s2)"
  shows "nxt s2 = nxt s" and "heap s2 = heap s"
  using assms by (auto simp: send_def split: prod.splits)

lemma attempt_loop_frame:
  "attempt_loop cfg net endpoint post_data retries attempt s = (r, s') \<Longrightarrow>
   nxt s' = nxt s \<and> (post_data \<noteq> Some a \<longrightarrow> heap s' a = heap s a)"
proof (induction "nat (retries - attempt)" arbitrary: attempt s rule: less_induct)
  case (less attempt s)
  show ?case
  proof (cases "attempt < retries")
    case False
    with less.prems show ?thesis by (simp add: attempt_loop.simps)
  next
    case True
    obtain call s1 where p: "prepare cfg endpoint post_data s = (call, s1)"
      by (cases "prepare cfg endpoint post_data s") auto
    obtain out s2 where sd: "send net call s1 = (out, s2)"
      by (cases "send net call s1") auto
    from prepare_frame [OF p] send_frame [OF sd]
    have fr: "nxt s2 = nxt s" "post_data \<noteq> Some a \<longrightarrow> heap s2 a = heap s a" by auto
    show ?thesis
    proof (cases out)
      case (Returned v)
      with less.prems True p sd fr show ?thesis by (simp add: attempt_loop.simps)
    next
      case (Raised e)
      show ?thesis
      proof (cases "is_RequestException e \<and> attempt \<noteq> retries - 1")
        case False
        with less.prems True p sd fr Raised show ?thesis
          by (auto simp: attempt_loop.simps split: if_splits)
      next
        case retry: True
        with less.prems True p sd Raised
        have rec: "attempt_loop cfg net endpoint post_data retries (attempt + 1)
                (emit (Sleep (2 ^ nat attempt)) s2) = (r, s')"
          by (simp add: attempt_loop.simps)
        from True have "nat (retries - (attempt + 1)) < nat (retries - attempt)" by simp
        from less.hyps [OF this rec] fr show ?thesis by simp
      qed
    qed
  qed
qed

lemma body_frame:
  assumes "body cfg net p current_offset api_limit total_limit progress v s = (fl, es, s')"
    and "a < nxt s"
  shows "heap s' a = heap s a" and "nxt s \<le> nxt s'"
proof -
  have hr: "heap s2 = heap s1 \<and> nxt s2 = nxt s1"
    if "handle_result result current_limit v s1 = (fl2, s2)" for result current_limit s1 s2 fl2
    using that
    by (auto simp: handle_result_def Let_def
        split: if_splits pyval.splits sum.splits option.splits)
  from assms show "heap s' a = heap s a"
    by (auto simp: body_def Let_def make_api_request_def
        dest!: hr attempt_loop_frame [where a = a] split: sum.splits prod.splits)
  from assms show "nxt s \<le> nxt s'"
    by (auto simp: body_def Let_def make_api_request_def
        dest!: hr attempt_loop_frame [where a = a] split: sum.splits prod.splits)
qed

lemma bulk_loop_frame:
  "bulk_loop cfg net p current_offset api_limit total_limit progress v tr s = (r, tr', s') \<Longrightarrow>
   a < nxt s \<Longrightarrow> heap s' a = heap s a"
proof (induction v tr s rule: bulk_loop_induct [where total_limit = total_limit and cfg = cfg and net = net
      and p = p and current_offset = current_offset and api_limit = api_limit and progress = progress])
  case (step v tr s)
  from step.prems(1) show ?case
  proof (cases rule: bulk_loop_cases)
    case stop
    then show ?thesis by simp
  next
    case (raise e es)
    from body_frame(1) [OF raise(2) step.prems(2)] show ?thesis .
  next
    case (break v' es)
    from body_frame(1) [OF break(2) step.prems(2)] show ?thesis .
  next
    case (continue v' es s1)
    from body_frame [OF continue(2) step.prems(2)] have "heap s1 a = heap s a" "a < nxt s1"
      using step.prems(2) by auto
    with step.IH [OF continue] show ?thesis by simp
  qed
qed

lemma bulk_loop_limits:
  assumes a: "as_int api_limit = Some a"
  shows "bulk_loop cfg net p current_offset api_limit total_limit progress v tr s = (r, tr', s') \<Longrightarrow>
    \<forall>e \<in> set tr. \<exists>l n. map_of (fst e) ''limit'' = Some l \<and> as_int l = Some n \<and> n \<le> a \<Longrightarrow>
    \<forall>e \<in> set tr'. \<exists>l n. map_of (fst e) ''limit'' = Some l \<and> as_int l = Some n \<and> n \<le> a"
proof (induction v tr s rule: bulk_loop_induct [where total_limit = total_limit and cfg = cfg and net = net
      and p = p and current_offset = current_offset and api_limit = api_limit and progress = progress])
  case (step v tr s)
  have new: "\<forall>e \<in> set es. \<exists>l n. map_of (fst e) ''limit'' = Some l \<and> as_int l = Some n \<and> n \<le> a"
    if "body cfg net p current_offset api_limit total_limit progress v s = (fl, es, s1)" for fl es s1
    using body_entries(2) [OF that] a by (fastforce dest: py_min_bound)
  from step.prems(1) show ?case
  proof (cases rule: bulk_loop_cases)
    case stop
    with step.prems show ?thesis by simp
  next
    case (raise e es)
    with step.prems(2) new [OF raise(2)] show ?thesis by auto
  next
    case (break v' es)
    with step.prems(2) new [OF break(2)] show ?thesis by auto
  next
    case (continue v' es s1)
    from step.prems(2) new [OF continue(2)]
    have "\<forall>e \<in> set (tr @ es). \<exists>l n. map_of (fst e) ''limit'' = Some l \<and> as_int l = Some n \<and> n \<le> a"
      by auto
    from step.IH [OF continue this] show ?thesis .
  qed
qed

text \<open>From \<^verbatim>\<open>bulk_fetch_articles\<close> to its loop.\<close>

lemma bulk_fetch_cases [consumes 1, case_names type_error loop]:
  assumes "bulk_fetch_articles cfg net p total_limit progress s = (r, tr, s')"
  obtains e where "r = Inl e" "tr = []" "s' = s"
  | api_limit a where
      "py_min (VInt 1000) (dict_get (heap s p) ''limit'' (VInt 1000)) = Inr api_limit"
      "as_int api_limit = Some a" "a \<le> 1000"
      "as_int (dict_get (heap s p) ''limit'' (VInt 1000)) = Some a \<or>
       (a = 1000 \<and> (\<exists>n. as_int (dict_get (heap s p) ''limit'' (VInt 1000)) = Some n \<and> 1000 \<le> n))"
      "bulk_loop cfg net p (dict_get (heap s p) ''offset'' (VInt 0)) api_limit total_limit progress
         \<lparr>all_articles = [], total_fetched = 0, page = 1\<rparr> [] s = (r, tr, s')"
proof (cases "py_min (VInt 1000) (dict_get (heap s p) ''limit'' (VInt 1000))")
  case (Inl e)
  with assms have "r = Inl e" "tr = []" "s' = s"
    by (auto simp: bulk_fetch_articles_def)
  then show ?thesis by (rule that(1))
next
  case (Inr api_limit)
  then obtain a where a: "as_int api_limit = Some a" "a \<le> 1000"
    "as_int (dict_get (heap s p) ''limit'' (VInt 1000)) = Some a \<or>
       (a = 1000 \<and> (\<exists>n. as_int (dict_get (heap s p) ''limit'' (VInt 1000)) = Some n \<and> 1000 \<le> n))"
    by (auto simp: py_min_def split: option.splits if_splits)
  from assms Inr
  have "bulk_loop cfg net p (dict_get (heap s p) ''offset'' (VInt 0)) api_limit total_limit progress
          \<lparr>all_articles = [], total_fetched = 0, page = 1\<rparr> [] s = (r, tr, s')"
    by (simp add: bulk_fetch_articles_def)
  with Inr a that(2) show ?thesis by blast
qed

text \<open>The sample runs, evaluated.\<close>

lemmas run_defs =
  bulk_fetch_articles_def bulk_loop.simps body_def make_api_request_def attempt_loop.simps
  prepare_def send_def handle_result_def exact_server_def scripted_server_def state_with_def
  dict_get_def py_min_def py_add_int_def store_def emit_def report_def Let_def sample_config_def
  base_request_def page_of_def url_of_def rstrip_slash_def

lemma sample_run_eval:
  "fst sample_run = Inr (replicate 1000 sample_article @ replicate 1000 sample_article
      @ replicate 500 sample_article)"
  "map (\<lambda>e. (offset_of (fst e), limit_of (fst e), length (records (snd e)))) (fst (snd sample_run))
     = [(Some 0, Some 1000, 1000), (Some 1000, Some 1000, 1000), (Some 2000, Some 500, 500)]"
  "map (\<lambda>e. map_of (fst e) ''limit'') (fst (snd sample_run))
     = [Some (VInt 1000), Some (VInt 1000), Some (VInt 500)]"
  "heap (snd (snd sample_run)) 0 = base_request"
  "map_of (heap (snd (snd sample_run)) 1) ''server_key'' = Some (VStr ''k'')"
  "length (fst (snd sample_run)) = 3"
  "length (fetched (take 2 (fst (snd sample_run)))) = 2000"
  "map (\<lambda>e. offset_of (fst e)) (fst (snd sample_run)) = [Some 0, Some 1000, Some 2000]"
  "map (\<lambda>e. length (records (snd e))) (fst (snd sample_run)) = [1000, 1000, 500]"
  by (simp_all add: sample_run_def run_defs offset_of_def limit_of_def records_def fetched_def)

lemma small_pages_run_eval:
  "fst small_pages_run = Inr [sample_article, sample_article, sample_article]"
  "length (fst (snd small_pages_run)) = 3"
  by (simp_all add: small_pages_run_def run_defs)

lemma short_page_run_eval:
  "fst short_page_run = Inr [sample_article, sample_article]"
  "map (\<lambda>e. (limit_of (fst e), is_success (snd e), length (records (snd e)))) (fst (snd short_page_run))
     = [(Some 1000, True, 2)]"
  by (simp_all add: short_page_run_def run_defs limit_of_def records_def is_success_def)

lemma failing_run_eval:
  "fst failing_run = Inr [sample_article, VDict [(''id'', VInt 2)]]"
  "map (\<lambda>e. (offset_of (fst e), snd e)) (fst (snd failing_run))
     = [(Some 0, Inr (page_of [sample_article, VDict [(''id'', VInt 2)]])), (Some 2, Inr VNone)]"
  "log (snd (snd failing_run)) =
     [Http (Post ''https://example.org/api/get-articles?access_token=t''
              [(''limit'', VInt 2), (''offset'', VInt 0), (''server_key'', VStr ''k'')]),
      Sleep 1,
      Http (Post ''https://example.org/api/get-articles?access_token=t''
              [(''limit'', VInt 2), (''offset'', VInt 2), (''server_key'', VStr ''k'')]),
      Sleep 1,
      Http (Post ''https://example.org/api/get-articles?access_token=t''
              [(''limit'', VInt 2), (''offset'', VInt 2), (''server_key'', VStr ''k'')]),
      Sleep 2,
      Http (Post ''https://example.org/api/get-articles?access_token=t''
              [(''limit'', VInt 2), (''offset'', VInt 2), (''server_key'', VStr ''k'')]),
      StError (ApiFailed 3), StError (PageFailed 2)]"
  "snd (last (fst (snd failing_run))) = Inr VNone"
  by (simp_all add: failing_run_def run_defs offset_of_def)

section \<open>The paginator's properties\<close>

text \<open>
  C1. In every run of \<^verbatim>\<open>bulk_fetch_articles\<close>, whatever the target total and the base
  request, every request the loop builds has a \<^verbatim>\<open>limit\<close> field, and its value is an integer
  of at most 1000.
\<close>

theorem bulk_fetch_limit_ceiling:
  assumes "bulk_fetch_articles cfg net p total_limit progress s = (r, tr, s')"
    and "(req, resp) \<in> set tr"
  shows "\<exists>l n. map_of req ''limit'' = Some l \<and> as_int l = Some n \<and> n \<le> 1000"
  using assms(1)
proof (cases rule: bulk_fetch_cases)
  case (type_error e)
  with assms(2) show ?thesis by simp
next
  case (loop api_limit a)
  from bulk_loop_limits [OF loop(2) loop(5)] assms(2) loop(3) show ?thesis by fastforce
qed


theorem bulk_fetch_limit_ceiling_witness:
  "fst (snd sample_run) ! 2 \<in> set (fst (snd sample_run)) \<and>
   (\<exists>l n. map_of (fst (fst (snd sample_run) ! 2)) ''limit'' = Some l \<and> as_int l = Some n
      \<and> n \<le> 1000)"
proof -
  let ?e = "fst (snd sample_run) ! 2"
  from sample_run_eval(6) have mem: "?e \<in> set (fst (snd sample_run))" by simp
  then have "(fst ?e, snd ?e) \<in> set (fst (snd sample_run))" by simp
  moreover have "bulk_fetch_articles sample_config exact_server 0 2500 False
      (state_with base_request ()) = (fst sample_run, fst (snd sample_run), snd (snd sample_run))"
    by (simp add: sample_run_def)
  ultimately have "\<exists>l n. map_of (fst ?e) ''limit'' = Some l \<and> as_int l = Some n \<and> n \<le> 1000"
    by (rule bulk_fetch_limit_ceiling [rotated])
  with mem show ?thesis by simp
qed

text \<open>
  C2, as amended. For every target total, every base request and every behaviour of the
  server the call returns (a value or an exception), and the loop body runs at most
  \<open>ceil (T / p) + 1\<close> times, where \<open>T\<close> is the target total (0 when negative) and \<open>p\<close> is
  the page size in force, \<^verbatim>\<open>min(1000, limit)\<close> of the base request and at least 1; \<open>p\<close> is
  1000 when the base request has no \<^verbatim>\<open>limit\<close> or one of 1000 or more.
\<close>

theorem bulk_fetch_iteration_bound:
  "\<exists>r tr s'. bulk_fetch_articles cfg net p total_limit progress s = (r, tr, s') \<and>
     int (length tr) \<le> ceil_div (max 0 total_limit) (page_size (heap s p)) + 1"
proof -
  obtain r tr s' where run: "bulk_fetch_articles cfg net p total_limit progress s = (r, tr, s')"
    by (cases "bulk_fetch_articles cfg net p total_limit progress s") auto
  have "int (length tr) \<le> ceil_div (max 0 total_limit) (page_size (heap s p)) + 1"
    using run
  proof (cases rule: bulk_fetch_cases)
    case (type_error e)
    have "0 \<le> ceil_div (max 0 total_limit) (page_size (heap s p))"
      by (rule ceil_div_nonneg) (auto simp: page_size_def split: option.splits)
    with type_error show ?thesis by simp
  next
    case (loop api_limit a)
    from loop(3,4) have "page_size (heap s p) = max 1 a"
      by (auto simp: page_size_def)
    with bulk_loop_count [OF loop(2) loop(5)] show ?thesis by simp
  qed
  with run show ?thesis by blast
qed

text \<open>With pages of one record, a target of 3 takes three passes, more than
  \<open>ceil (3 / 1000) + 1 = 2\<close>.\<close>

theorem bulk_fetch_iteration_bound_counterexample:
  "length (fst (snd small_pages_run)) = 3 \<and> \<not> (3 \<le> ceil_div 3 1000 + 1)"
  by (simp add: small_pages_run_eval ceil_div_def)

text \<open>
  C3. When a page comes back as a success payload with no record, or with fewer records
  than the \<^verbatim>\<open>limit\<close> of its request, it is the last entry of the trace: no request follows,
  whatever the count reached so far.
\<close>

theorem short_page_is_last:
  assumes "bulk_fetch_articles cfg net p total_limit progress s = (r, tr, s')"
    and "i < length tr"
    and "is_success (snd (tr ! i))"
    and "limit_of (fst (tr ! i)) = Some n"
    and "records (snd (tr ! i)) = [] \<or> int (length (records (snd (tr ! i)))) < n"
  shows "Suc i = length tr"
proof (rule ccontr)
  assume "Suc i \<noteq> length tr"
  with assms(2) have i: "i < length (butlast tr)" by simp
  have "\<forall>e \<in> set (butlast tr). full_page e"
    using assms(1)
  proof (cases rule: bulk_fetch_cases)
    case (type_error e)
    then show ?thesis by simp
  next
    case (loop api_limit a)
    from bulk_loop_trace [OF loop(5)] show ?thesis by auto
  qed
  moreover from i have "tr ! i \<in> set (butlast tr)"
    by (metis nth_butlast nth_mem)
  ultimately have "full_page (tr ! i)" by blast
  with assms(4,5) show False by (auto simp: full_page_def)
qed

theorem short_page_is_last_witness:
  "0 < length (fst (snd short_page_run)) \<and> is_success (snd (fst (snd short_page_run) ! 0))
   \<and> limit_of (fst (fst (snd short_page_run) ! 0)) = Some 1000
   \<and> int (length (records (snd (fst (snd short_page_run) ! 0)))) < 1000
   \<and> int (length (records (snd (fst (snd short_page_run) ! 0)))) < 2500
   \<and> Suc 0 = length (fst (snd short_page_run))"
proof -
  let ?tr = "fst (snd short_page_run)"
  from short_page_run_eval(2) obtain e where tr: "?tr = [e]" and
    e: "limit_of (fst e) = Some 1000" "is_success (snd e)" "length (records (snd e)) = 2"
    by auto
  have run: "bulk_fetch_articles sample_config scripted_server 0 2500 False
      (state_with base_request [Returned (page_of [sample_article, sample_article])])
      = (fst short_page_run, ?tr, snd (snd short_page_run))"
    by (simp add: short_page_run_def)
  have "Suc 0 = length ?tr"
    by (rule short_page_is_last [OF run, where n = 1000]) (simp_all add: tr e)
  with tr e show ?thesis by simp
qed

text \<open>
  C4. When the last page of a run failed (the transport gave \<^verbatim>\<open>None\<close>, or the payload's
  \<^verbatim>\<open>api_status\<close> is not 200), every page before it was a full success page, and the call
  returns, without an exception, the records of those pages in order.
\<close>

theorem partial_failure_keeps_records:
  assumes "bulk_fetch_articles cfg net p total_limit progress s = (r, tr, s')"
    and "tr \<noteq> []"
    and "is_failure (snd (last tr))"
  shows "r = Inr (fetched (butlast tr)) \<and> (\<forall>e \<in> set (butlast tr). full_page e)"
  using assms(1)
proof (cases rule: bulk_fetch_cases)
  case (type_error e)
  with assms(2) show ?thesis by simp
next
  case (loop api_limit a)
  from bulk_loop_trace [OF loop(5)]
  have full: "\<forall>e \<in> set (butlast tr). full_page e"
    and res: "\<forall>xs. r = Inr xs \<longrightarrow> xs = fetched tr"
    and exn: "\<forall>e. r = Inl e \<longrightarrow> tr = [] \<or> \<not> is_failure (snd (last tr))"
    by auto
  from exn assms(2,3) obtain xs where xs: "r = Inr xs" by (cases r) auto
  from assms(3) have "records (snd (last tr)) = []"
    by (simp add: is_failure_not_success)
  moreover from assms(2) have "tr = butlast tr @ [last tr]" by simp
  then have "fetched tr = fetched (butlast tr) @ records (snd (last tr))"
    by (metis fetched_simps(1,2,3) append_Nil2)
  ultimately have "fetched tr = fetched (butlast tr)" by simp
  with res xs full show ?thesis by simp
qed

theorem partial_failure_keeps_records_witness:
  "fst (snd failing_run) \<noteq> [] \<and> is_failure (snd (last (fst (snd failing_run))))
   \<and> fst failing_run = Inr (fetched (butlast (fst (snd failing_run))))
   \<and> fst failing_run = Inr [sample_article, VDict [(''id'', VInt 2)]]"
proof -
  let ?tr = "fst (snd failing_run)"
  from failing_run_eval(2) have ne: "?tr \<noteq> []" by auto
  from failing_run_eval(4) have fail: "is_failure (snd (last ?tr))" by (simp add: is_failure_def)
  have run: "bulk_fetch_articles sample_config scripted_server 0 5 False
       (state_with [(''limit'', VInt 2)]
          [Returned (page_of [sample_article, VDict [(''id'', VInt 2)]]),
           Raised ReqTimeout, Raised ReqTimeout, Raised ReqTimeout])
      = (fst failing_run, ?tr, snd (snd failing_run))"
    by (simp add: failing_run_def)
  from partial_failure_keeps_records [OF run ne fail] ne fail failing_run_eval(1)
  show ?thesis by simp
qed

text \<open>
  C5. The request of each pass carries as \<^verbatim>\<open>offset\<close> the base request's offset plus the
  number of records fetched by the passes before it. In the sample run (target 2500, the
  server returning exactly what each request asks for) there are three requests, at
  offsets 0, 1000 and 2000, and the result has 2500 records.
\<close>

theorem request_offsets:
  "(bulk_fetch_articles cfg net p total_limit progress s = (r, tr, s')
      \<and> as_int (dict_get (heap s p) ''offset'' (VInt 0)) = Some b \<and> i < length tr
    \<longrightarrow> offset_of (fst (tr ! i)) = Some (b + int (length (fetched (take i tr)))))
   \<and> map (\<lambda>e. offset_of (fst e)) (fst (snd sample_run)) = [Some 0, Some 1000, Some 2000]
   \<and> map (\<lambda>e. length (records (snd e))) (fst (snd sample_run)) = [1000, 1000, 500]
   \<and> map_sum id length (fst sample_run) = Inr 2500"
proof (intro conjI impI)
  assume h: "bulk_fetch_articles cfg net p total_limit progress s = (r, tr, s')
      \<and> as_int (dict_get (heap s p) ''offset'' (VInt 0)) = Some b \<and> i < length tr"
  then have run: "bulk_fetch_articles cfg net p total_limit progress s = (r, tr, s')" by simp
  from run show "offset_of (fst (tr ! i)) = Some (b + int (length (fetched (take i tr))))"
  proof (cases rule: bulk_fetch_cases)
    case (type_error e)
    with h show ?thesis by simp
  next
    case (loop api_limit a)
    from h have "as_int (dict_get (heap s p) ''offset'' (VInt 0)) = Some b" by simp
    from bulk_loop_offsets [OF this loop(5)] h show ?thesis by simp
  qed
next
  show "map (\<lambda>e. offset_of (fst e)) (fst (snd sample_run)) = [Some 0, Some 1000, Some 2000]"
    by (rule sample_run_eval(8))
next
  show "map (\<lambda>e. length (records (snd e))) (fst (snd sample_run)) = [1000, 1000, 500]"
    by (rule sample_run_eval(9))
next
  show "map_sum id length (fst sample_run) = Inr 2500"
    by (simp add: sample_run_eval(1))
qed

theorem request_offsets_witness:
  "as_int (dict_get (heap (state_with base_request ()) 0) ''offset'' (VInt 0)) = Some 0
   \<and> 2 < length (fst (snd sample_run))
   \<and> length (fetched (take 2 (fst (snd sample_run)))) = 2000
   \<and> offset_of (fst (fst (snd sample_run) ! 2)) = Some 2000"
proof -
  let ?tr = "fst (snd sample_run)"
  have run: "bulk_fetch_articles sample_config exact_server 0 2500 False
        (state_with base_request ()) = (fst sample_run, ?tr, snd (snd sample_run))"
    by (simp add: sample_run_def)
  have b: "as_int (dict_get (heap (state_with base_request ()) 0) ''offset'' (VInt 0)) = Some 0"
    by (simp add: state_with_def base_request_def dict_get_def)
  note len = sample_run_eval(6) and fetched2 = sample_run_eval(7)
  from request_offsets [of sample_config exact_server 0 2500 False "state_with base_request ()"
      "fst sample_run" ?tr "snd (snd sample_run)" 0 2] run b len fetched2
  show ?thesis by simp
qed

text \<open>
  C10. When \<^verbatim>\<open>bulk_fetch_articles\<close> ends, by return or by exception, the caller's
  \<^verbatim>\<open>post_data\<close> holds what it held at the call: the loop writes \<^verbatim>\<open>limit\<close> and \<^verbatim>\<open>offset\<close>
  into a fresh copy, and \<^verbatim>\<open>make_api_request\<close> writes \<^verbatim>\<open>server_key\<close> into that copy.
\<close>

theorem caller_post_data_unchanged:
  assumes "bulk_fetch_articles cfg net p total_limit progress s = (r, tr, s')"
    and "p < nxt s"
  shows "heap s' p = heap s p"
  using assms(1)
proof (cases rule: bulk_fetch_cases)
  case (type_error e)
  then show ?thesis by simp
next
  case (loop api_limit a)
  from bulk_loop_frame [OF loop(5) assms(2)] show ?thesis .
qed

theorem caller_post_data_unchanged_witness:
  "0 < nxt (state_with base_request ())
   \<and> heap (snd (snd sample_run)) 0 = heap (state_with base_request ()) 0
   \<and> heap (snd (snd sample_run)) 0 = [(''limit'', VInt 1000), (''offset'', VInt 0)]
   \<and> map_of (heap (snd (snd sample_run)) 1) ''server_key'' = Some (VStr ''k'')"
proof -
  have run: "bulk_fetch_articles sample_config exact_server 0 2500 False
        (state_with base_request ()) = (fst sample_run, fst (snd sample_run), snd (snd sample_run))"
    by (simp add: sample_run_def)
  have n: "0 < nxt (state_with base_request ())" by (simp add: state_with_def)
  from caller_post_data_unchanged [OF run n] n sample_run_eval(5) show ?thesis
    by (simp add: state_with_def base_request_def)
qed

end
